theory Spec2Isabelle
  imports Complex_Main "HOL-Library.Sublist" "HOL-Library.Multiset"
begin

section \<open>Python strings\<close>

text \<open>
  Scheduler output is ASCII text, so a Python \<^verbatim>\<open>str\<close> is modelled as a \<open>string\<close> whose
  characters are ASCII code points. \<^verbatim>\<open>str.strip()\<close> removes the characters for which
  \<^verbatim>\<open>str.isspace\<close> holds (tab, line feed, vertical tab, form feed, carriage return, the four
  separators 0x1C..0x1F and the blank) from both ends; \<^verbatim>\<open>str.upper()\<close> maps a..z to A..Z.
\<close>

definition py_isspace :: "char \<Rightarrow> bool" where
  "py_isspace c \<longleftrightarrow>
     c \<in> set [CHR 0x09, CHR 0x0A, CHR 0x0B, CHR 0x0C, CHR 0x0D,
              CHR 0x1C, CHR 0x1D, CHR 0x1E, CHR 0x1F, CHR 0x20]"

definition py_strip :: "string \<Rightarrow> string" where
  "py_strip s = rev (dropWhile py_isspace (rev (dropWhile py_isspace s)))"

definition upper_char :: "char \<Rightarrow> char" where
  "upper_char c =
     (case map_of (zip ''abcdefghijklmnopqrstuvwxyz'' ''ABCDEFGHIJKLMNOPQRSTUVWXYZ'') c of
        Some u \<Rightarrow> u
      | None \<Rightarrow> c)"

definition py_upper :: "string \<Rightarrow> string" where
  "py_upper s = map upper_char s"

text \<open>
  \<^verbatim>\<open>s.split(sep)\<close> for a one-character separator: the pieces between the separators,
  never the empty list. \<open>cur\<close> holds the piece being read, reversed.
\<close>

fun split_from :: "char \<Rightarrow> string \<Rightarrow> string \<Rightarrow> string list" where
  "split_from sep cur [] = [rev cur]"
| "split_from sep cur (c # cs) =
     (if c = sep then rev cur # split_from sep [] cs
      else split_from sep (c # cur) cs)"

definition py_split :: "char \<Rightarrow> string \<Rightarrow> string list" where
  "py_split sep s = split_from sep [] s"

text \<open>
  \<^verbatim>\<open>int(s)\<close> in base 10: surrounding white space, one optional sign, then digits, where
  single underscores may stand between digits. \<open>None\<close> is the \<^verbatim>\<open>ValueError\<close>. (The
  interpreter's limit on the number of digits is not modelled.)
\<close>

definition digit_val :: "char \<Rightarrow> nat option" where
  "digit_val c =
     map_of (zip ''0123456789'' [0, 1, 2, 3, 4, 5, 6, 7, 8, 9]) c"

fun int_digits :: "bool \<Rightarrow> string \<Rightarrow> nat \<Rightarrow> nat option" where
  "int_digits after_digit [] acc = (if after_digit then Some acc else None)"
| "int_digits after_digit (c # cs) acc =
     (case digit_val c of
        Some d \<Rightarrow> int_digits True cs (10 * acc + d)
      | None \<Rightarrow>
          if c = CHR ''_'' \<and> after_digit then int_digits False cs acc else None)"

definition py_int :: "string \<Rightarrow> int option" where
  "py_int s =
     (case py_strip s of
        [] \<Rightarrow> None
      | c # cs \<Rightarrow>
          if c = CHR ''-'' then map_option (\<lambda>n. - int n) (int_digits False cs 0)
          else if c = CHR ''+'' then map_option int (int_digits False cs 0)
          else map_option int (int_digits False (c # cs) 0))"

text \<open>\<^verbatim>\<open>parts[i] if len(parts) > i else ""\<close>\<close>

definition part_or_empty :: "string list \<Rightarrow> nat \<Rightarrow> string" where
  "part_or_empty parts i = (if length parts > i then parts ! i else [])"

section \<open>Errors\<close>

datatype error =
    ValueError string
  | RuntimeError string
  | FileNotFoundError
  | FileExistsError

section \<open>utils/slurm.py: job states\<close>

datatype JobState =
    PENDING | CONFIGURING | RUNNING | COMPLETING | COMPLETED
  | FAILED | CANCELLED | TIMEOUT | NODE_FAIL | UNKNOWN

text \<open>The members of the \<^verbatim>\<open>StrEnum\<close> in definition order, and the value of each.\<close>

definition JobState_members :: "JobState list" where
  "JobState_members =
     [PENDING, CONFIGURING, RUNNING, COMPLETING, COMPLETED,
      FAILED, CANCELLED, TIMEOUT, NODE_FAIL, UNKNOWN]"

fun JobState_value :: "JobState \<Rightarrow> string" where
  "JobState_value PENDING = ''PENDING''"
| "JobState_value CONFIGURING = ''CONFIGURING''"
| "JobState_value RUNNING = ''RUNNING''"
| "JobState_value COMPLETING = ''COMPLETING''"
| "JobState_value COMPLETED = ''COMPLETED''"
| "JobState_value FAILED = ''FAILED''"
| "JobState_value CANCELLED = ''CANCELLED''"
| "JobState_value TIMEOUT = ''TIMEOUT''"
| "JobState_value NODE_FAIL = ''NODE_FAIL''"
| "JobState_value UNKNOWN = ''UNKNOWN''"

text \<open>\<^verbatim>\<open>JobState(state_str)\<close>: the member with that value, or \<^verbatim>\<open>ValueError\<close>.\<close>

definition JobState_call :: "string \<Rightarrow> error + JobState" where
  "JobState_call s =
     (case find (\<lambda>m. JobState_value m = s) JobState_members of
        Some m \<Rightarrow> Inr m
      | None \<Rightarrow> Inl (ValueError s))"

text \<open>\<^verbatim>\<open>SlurmManager._parse_state\<close>: the \<^verbatim>\<open>ValueError\<close> is caught and becomes \<open>UNKNOWN\<close>.\<close>

definition parse_state :: "string \<Rightarrow> JobState" where
  "parse_state state_str =
     (let state_str = py_upper (py_strip state_str) in
      if prefix ''CANCELLED'' state_str then CANCELLED
      else (case JobState_call state_str of
              Inr m \<Rightarrow> m
            | Inl e \<Rightarrow> UNKNOWN))"

section \<open>utils/slurm.py: job status and the scheduler commands\<close>

record JobStatus =
  job_id :: string
  state :: JobState
  name :: string
  node_list :: string
  exit_code :: "int option"
  elapsed_time :: string
  reason :: string

text \<open>
  \<^verbatim>\<open>subprocess.run\<close> either cannot start the program (\<^verbatim>\<open>FileNotFoundError\<close>, the case
  \<^verbatim>\<open>_check_slurm_available\<close> catches) or returns its exit status and captured standard
  output. The scheduler is the function that answers each command.
\<close>

datatype run_outcome = NotFound | Completed int string

datatype command = SqueueVersion | Sacct string | Squeue string

type_synonym scheduler = "command \<Rightarrow> run_outcome"

definition slurm_unavailable :: string where
  "slurm_unavailable = ''SLURM commands not available. Ensure you are on a cluster with SLURM.''"

text \<open>
  \<^verbatim>\<open>SlurmManager._check_slurm_available\<close> runs with \<^verbatim>\<open>check=True\<close>: a non-zero exit status is
  \<^verbatim>\<open>CalledProcessError\<close>, and both exceptions become a \<^verbatim>\<open>RuntimeError\<close>.
\<close>

definition check_slurm_available :: "scheduler \<Rightarrow> error + unit" where
  "check_slurm_available sched =
     (case sched SqueueVersion of
        NotFound \<Rightarrow> Inl (RuntimeError slurm_unavailable)
      | Completed rc out \<Rightarrow>
          if rc \<noteq> 0 then Inl (RuntimeError slurm_unavailable) else Inr ())"

text \<open>\<^verbatim>\<open>SlurmManager.__init__\<close>: stores its arguments and runs the check once.\<close>

definition SlurmManager_init :: "scheduler \<Rightarrow> error + unit" where
  "SlurmManager_init sched = check_slurm_available sched"

definition terminal_states :: "JobState set" where
  "terminal_states = {COMPLETED, FAILED, CANCELLED, TIMEOUT, NODE_FAIL}"

text \<open>The exit code of an accounting line: \<^verbatim>\<open>ValueError\<close> is suppressed and leaves \<open>None\<close>.\<close>

definition sacct_exit_code :: "string list \<Rightarrow> int option" where
  "sacct_exit_code parts =
     (if length parts > 4 \<and> parts ! 4 \<noteq> []
      then py_int (hd (py_split CHR '':'' (parts ! 4)))
      else None)"

definition sacct_line_status :: "string list \<Rightarrow> JobStatus" where
  "sacct_line_status parts =
     \<lparr> job_id = hd parts,
       state = (if length parts > 2 then parse_state (parts ! 2) else UNKNOWN),
       name = part_or_empty parts 1,
       node_list = part_or_empty parts 3,
       exit_code = sacct_exit_code parts,
       elapsed_time = part_or_empty parts 5,
       reason = part_or_empty parts 6 \<rparr>"

text \<open>The loop over the accounting lines, with its \<^verbatim>\<open>continue\<close> and its \<^verbatim>\<open>break\<close>.\<close>

fun sacct_scan :: "string \<Rightarrow> string list \<Rightarrow> JobStatus option" where
  "sacct_scan jid [] = None"
| "sacct_scan jid (line # lines) =
     (let parts = py_split CHR ''|'' line in
      if hd parts = jid \<or> prefix (jid @ ''.'') (hd parts) then
        (if sublist ''.batch'' (hd parts) \<or> sublist ''.extern'' (hd parts)
         then sacct_scan jid lines
         else Some (sacct_line_status parts))
      else sacct_scan jid lines)"

definition sacct_status :: "string \<Rightarrow> int \<Rightarrow> string \<Rightarrow> JobStatus option" where
  "sacct_status jid rc out =
     (if rc = 0 \<and> py_strip out \<noteq> []
      then sacct_scan jid (py_split CHR 0x0A (py_strip out))
      else None)"

definition squeue_status :: "string list \<Rightarrow> JobStatus" where
  "squeue_status parts =
     \<lparr> job_id = hd parts,
       state = (if length parts > 2 then parse_state (parts ! 2) else UNKNOWN),
       name = part_or_empty parts 1,
       node_list = part_or_empty parts 3,
       exit_code = None,
       elapsed_time = [],
       reason = part_or_empty parts 4 \<rparr>"

definition unknown_status :: "string \<Rightarrow> JobStatus" where
  "unknown_status jid =
     \<lparr> job_id = jid, state = UNKNOWN, name = [], node_list = [],
       exit_code = None, elapsed_time = [], reason = [] \<rparr>"

text \<open>
  \<^verbatim>\<open>SlurmManager.get_job_status\<close>. The result is the list of commands that were run, in
  order, and the status or the exception that leaves the method.
\<close>

definition get_job_status :: "scheduler \<Rightarrow> string \<Rightarrow> command list \<times> (error + JobStatus)" where
  "get_job_status sched jid =
     (case sched (Sacct jid) of
        NotFound \<Rightarrow> ([Sacct jid], Inl FileNotFoundError)
      | Completed rc out \<Rightarrow>
          (let sacct = sacct_status jid rc out in
           if (case sacct of Some st \<Rightarrow> state st \<in> terminal_states | None \<Rightarrow> False)
           then ([Sacct jid], Inr (the sacct))
           else (case sched (Squeue jid) of
                   NotFound \<Rightarrow> ([Sacct jid, Squeue jid], Inl FileNotFoundError)
                 | Completed sq_rc sq_out \<Rightarrow>
                     if sq_rc = 0 \<and> py_strip sq_out \<noteq> []
                     then ([Sacct jid, Squeue jid],
                           Inr (squeue_status (py_split CHR ''|'' (py_strip sq_out))))
                     else ([Sacct jid, Squeue jid],
                           Inr (case sacct of
                                  Some st \<Rightarrow> st
                                | None \<Rightarrow> unknown_status jid)))))"

text \<open>
  \<^verbatim>\<open>SlurmManager.wait_for_job\<close>. The scheduler's answers may change from one poll to the
  next: \<open>world k\<close> answers the poll of iteration \<open>k\<close>. \<open>clock 0\<close> is \<^verbatim>\<open>start_time\<close> and
  \<open>clock (Suc k)\<close> the reading of \<^verbatim>\<open>time.time()\<close> in iteration \<open>k\<close>, as real numbers.
  \<^verbatim>\<open>if timeout and ...\<close> tests the truth value of \<^verbatim>\<open>timeout\<close>: \<^verbatim>\<open>None\<close> and \<open>0\<close> are false.
  \<^verbatim>\<open>time.sleep\<close> raises \<^verbatim>\<open>ValueError\<close> on a negative length. The loop may run forever, which
  is the value \<open>None\<close>; a result comes with the number of sleeps that preceded it. The
  calls of \<^verbatim>\<open>_log\<close> and the variable \<^verbatim>\<open>last_state\<close>, which only serves them, are left out.
\<close>

definition timed_out :: "int option \<Rightarrow> real \<Rightarrow> real \<Rightarrow> bool" where
  "timed_out timeout start_time now =
     (case timeout of
        None \<Rightarrow> False
      | Some t \<Rightarrow> t \<noteq> 0 \<and> now - start_time > real_of_int t)"

definition negative_sleep :: string where
  "negative_sleep = ''sleep length must be non-negative''"

partial_function (option) wait_loop ::
  "(nat \<Rightarrow> scheduler) \<Rightarrow> (nat \<Rightarrow> real) \<Rightarrow> string \<Rightarrow> int \<Rightarrow> int option \<Rightarrow> nat
     \<Rightarrow> (nat \<times> (error + JobStatus)) option" where
  "wait_loop world clock jid poll_interval timeout k =
     (case snd (get_job_status (world k) jid) of
        Inl e \<Rightarrow> Some (k, Inl e)
      | Inr status \<Rightarrow>
          if state status \<in> terminal_states then Some (k, Inr status)
          else if timed_out timeout (clock 0) (clock (Suc k)) then Some (k, Inr status)
          else if poll_interval < 0 then Some (k, Inl (ValueError negative_sleep))
          else wait_loop world clock jid poll_interval timeout (Suc k))"

definition wait_for_job ::
  "(nat \<Rightarrow> scheduler) \<Rightarrow> (nat \<Rightarrow> real) \<Rightarrow> string \<Rightarrow> int \<Rightarrow> int option
     \<Rightarrow> (nat \<times> (error + JobStatus)) option" where
  "wait_for_job world clock jid poll_interval timeout =
     wait_loop world clock jid poll_interval timeout 0"

text \<open>Schedulers for the examples: what the commands print for job 1001.\<close>

definition sacct_completed :: string where
  "sacct_completed =
     ''1001.batch|batch|COMPLETED|node1|0:0|00:10:00|'' @ [CHR 0x0A] @
     ''1001|nwm|COMPLETED|node1|0:0|00:10:00|None'' @ [CHR 0x0A]"

definition sacct_running :: string where
  "sacct_running = ''1001|nwm|RUNNING|node1|0:0|00:01:00|None'' @ [CHR 0x0A]"

definition squeue_completing :: string where
  "squeue_completing = ''1001|nwm|COMPLETING|node1|None'' @ [CHR 0x0A]"

definition completed_status :: JobStatus where
  "completed_status =
     \<lparr> job_id = ''1001'', state = COMPLETED, name = ''nwm'', node_list = ''node1'',
       exit_code = Some 0, elapsed_time = ''00:10:00'', reason = ''None'' \<rparr>"

definition running_status :: JobStatus where
  "running_status =
     \<lparr> job_id = ''1001'', state = RUNNING, name = ''nwm'', node_list = ''node1'',
       exit_code = Some 0, elapsed_time = ''00:01:00'', reason = ''None'' \<rparr>"

text \<open>The accounting source already has the job completed; the queue still lists it.\<close>

fun race_scheduler :: scheduler where
  "race_scheduler SqueueVersion = Completed 0 ''slurm 23.02.7''"
| "race_scheduler (Sacct j) = Completed 0 sacct_completed"
| "race_scheduler (Squeue j) = Completed 0 squeue_completing"

text \<open>The job runs; the queue command fails (exit status 1, nothing printed).\<close>

fun running_scheduler :: scheduler where
  "running_scheduler SqueueVersion = Completed 0 ''slurm 23.02.7''"
| "running_scheduler (Sacct j) = Completed 0 sacct_running"
| "running_scheduler (Squeue j) = Completed 1 []"

text \<open>Both commands run and fail.\<close>

fun failing_scheduler :: scheduler where
  "failing_scheduler SqueueVersion = Completed 0 ''slurm 23.02.7''"
| "failing_scheduler (Sacct j) = Completed 1 []"
| "failing_scheduler (Squeue j) = Completed 1 []"

text \<open>\<^verbatim>\<open>squeue\<close> is installed, \<^verbatim>\<open>sacct\<close> is not.\<close>

fun no_sacct_scheduler :: scheduler where
  "no_sacct_scheduler SqueueVersion = Completed 0 ''slurm 23.02.7''"
| "no_sacct_scheduler (Sacct j) = NotFound"
| "no_sacct_scheduler (Squeue j) = Completed 0 squeue_completing"

text \<open>Worlds for the wait loop: a job that runs forever, and one done at the third poll.\<close>

definition always_running :: "nat \<Rightarrow> scheduler" where
  "always_running k = running_scheduler"

definition done_at_third_poll :: "nat \<Rightarrow> scheduler" where
  "done_at_third_poll k = (if k < 2 then running_scheduler else race_scheduler)"

definition ticking :: "nat \<Rightarrow> real" where
  "ticking k = 30 * real k"

section \<open>stages/base.py: external processes\<close>
















section \<open>runner.py: planning, partitioning and promoted-stage dependencies\<close>

text \<open>
  Of the module \<^verbatim>\<open>coastal_calibration/runner.py\<close> only the tests are at hand. Its three
  operations are modelled from the specification, under the names the tests call them
  by.
\<close>

text \<open>
  Modelled from the spec: the position of a bound in the stage order, for the missing
  \<^verbatim>\<open>_get_stages_to_run\<close>. A stage order has no duplicate names; the first occurrence is
  taken.
\<close>

definition index_of :: "'a \<Rightarrow> 'a list \<Rightarrow> nat" where
  "index_of x xs = length (takeWhile (\<lambda>y. y \<noteq> x) xs)"

text \<open>
  Modelled from the spec: the "unknown stage" error naming the offending value, for the
  missing \<^verbatim>\<open>_get_stages_to_run\<close>. The tests expect a \<^verbatim>\<open>ValueError\<close> that matches
  "Unknown stage".
\<close>

definition unknown_stage :: "string \<Rightarrow> error" where
  "unknown_stage s = ValueError (''Unknown stage: '' @ s)"

text \<open>
  Modelled from the spec: the stages from \<open>start_from\<close> to \<open>stop_after\<close>, both inclusive,
  in the order of the stage order, for the missing \<^verbatim>\<open>_get_stages_to_run\<close>. An absent bound
  is the corresponding end of the stage order.
\<close>

definition stages_between :: "string list \<Rightarrow> string option \<Rightarrow> string option \<Rightarrow> string list" where
  "stages_between stage_order start_from stop_after =
     (let first = (case start_from of None \<Rightarrow> 0 | Some s \<Rightarrow> index_of s stage_order);
          past = (case stop_after of
                    None \<Rightarrow> length stage_order
                  | Some s \<Rightarrow> Suc (index_of s stage_order))
      in drop first (take past stage_order))"

text \<open>
  Modelled from the spec: \<^verbatim>\<open>StagePlanner.plan\<close> (\<^verbatim>\<open>CoastalCalibRunner._get_stages_to_run\<close>) is
  missing. A bound that is given must be a name of the stage order, otherwise the
  "unknown stage" error names it; the stage "download" is left out of the stages
  between the bounds when the download feature is disabled, unless it is one of the two
  bounds.
\<close>

definition get_stages_to_run ::
  "string list \<Rightarrow> string option \<Rightarrow> string option \<Rightarrow> bool \<Rightarrow> error + string list" where
  "get_stages_to_run stage_order start_from stop_after is_download_enabled =
     (if (case start_from of None \<Rightarrow> False | Some s \<Rightarrow> s \<notin> set stage_order)
      then Inl (unknown_stage (the start_from))
      else if (case stop_after of None \<Rightarrow> False | Some s \<Rightarrow> s \<notin> set stage_order)
      then Inl (unknown_stage (the stop_after))
      else
        let stages = stages_between stage_order start_from stop_after
        in Inr (if \<not> is_download_enabled \<and> start_from \<noteq> Some ''download''
                     \<and> stop_after \<noteq> Some ''download''
                then filter (\<lambda>s. s \<noteq> ''download'') stages
                else stages))"

text \<open>
  Modelled from the spec: \<^verbatim>\<open>SubmissionPartitioner.partition\<close>
  (\<^verbatim>\<open>CoastalCalibRunner._split_stages_for_submit\<close>) is missing. Without a containerized
  stage everything is pre-job. Otherwise the span runs from the first containerized
  stage to the last; its containerized stages are the job, its other stages are promoted
  to pre-job, behind the stages before the span; the stages after the span are post-job.
\<close>

definition split_stages_for_submit ::
  "string list \<Rightarrow> (string \<Rightarrow> bool) \<Rightarrow> string list \<times> string list \<times> string list" where
  "split_stages_for_submit stages is_containerized =
     (if filter is_containerized stages = [] then (stages, [], [])
      else
        let host = (\<lambda>s. \<not> is_containerized s);
            before = takeWhile host stages;
            from_first = dropWhile host stages;
            after = rev (takeWhile host (rev from_first));
            span = rev (dropWhile host (rev from_first))
        in (before @ filter host span, filter is_containerized span, after))"

text \<open>
  Modelled from the spec: the same partition as the single scan from left to right
  that the specification names, for the missing \<^verbatim>\<open>_split_stages_for_submit\<close>. Three lists
  are kept. A containerized stage goes to the job, after the pending stages have moved
  to pre-job; another stage goes to pre-job while the job is empty and is pending
  afterwards. At the end the pending stages are the post-job.
\<close>

fun scan_stages ::
  "(string \<Rightarrow> bool) \<Rightarrow> string list \<Rightarrow> string list \<Rightarrow> string list \<Rightarrow> string list
     \<Rightarrow> string list \<times> string list \<times> string list" where
  "scan_stages c [] pre_job job pending = (pre_job, job, pending)"
| "scan_stages c (s # ss) pre_job job pending =
     (if c s then scan_stages c ss (pre_job @ pending) (job @ [s]) []
      else if job = [] then scan_stages c ss (pre_job @ [s]) job pending
      else scan_stages c ss pre_job job (pending @ [s]))"

text \<open>
  For the proofs: the stages up to the last containerized one, and the stages after it.
\<close>

definition span_part :: "string list \<Rightarrow> (string \<Rightarrow> bool) \<Rightarrow> string list" where
  "span_part stages c = rev (dropWhile (\<lambda>s. \<not> c s) (rev stages))"

definition tail_part :: "string list \<Rightarrow> (string \<Rightarrow> bool) \<Rightarrow> string list" where
  "tail_part stages c = rev (takeWhile (\<lambda>s. \<not> c s) (rev stages))"

text \<open>
  Modelled from the spec: the file system that the missing
  \<^verbatim>\<open>_prepare_promoted_stage_deps\<close> reads and writes maps a path to what is there, a file
  with its content or a symbolic link with its target.
\<close>

datatype node = File string | Link string

type_synonym filesystem = "string \<rightharpoonup> node"

text \<open>
  Modelled from the spec: a promoted-stage dependency rule names a stage, the file the
  stage needs in the working directory and the canonical source of that file. The table
  of rules of the missing \<^verbatim>\<open>_prepare_promoted_stage_deps\<close> is a list of them.
\<close>

record dep_rule =
  rule_stage :: string
  required :: string
  source :: string

text \<open>
  Modelled from the spec: creating the symbolic link, for the missing
  \<^verbatim>\<open>_prepare_promoted_stage_deps\<close>. Where something exists already it is
  \<^verbatim>\<open>FileExistsError\<close>, as \<^verbatim>\<open>Path.symlink_to\<close> has it.
\<close>

definition symlink_to :: "filesystem \<Rightarrow> string \<Rightarrow> string \<Rightarrow> error + filesystem" where
  "symlink_to fs dst src =
     (if fs dst \<noteq> None then Inl FileExistsError else Inr (fs(dst \<mapsto> Link src)))"

text \<open>
  Modelled from the spec: one rule of the missing \<^verbatim>\<open>_prepare_promoted_stage_deps\<close>. If the
  required file exists, nothing is done; otherwise, if the source exists, the link is
  created; otherwise the rule is skipped.
\<close>

definition apply_rule :: "dep_rule \<Rightarrow> filesystem \<Rightarrow> error + filesystem" where
  "apply_rule r fs =
     (if fs (required r) \<noteq> None then Inr fs
      else if fs (source r) \<noteq> None then symlink_to fs (required r) (source r)
      else Inr fs)"

text \<open>
  Modelled from the spec: the rules in the order of the table, for the missing
  \<^verbatim>\<open>_prepare_promoted_stage_deps\<close>; an exception ends the run.
\<close>

fun apply_rules :: "dep_rule list \<Rightarrow> filesystem \<Rightarrow> error + filesystem" where
  "apply_rules [] fs = Inr fs"
| "apply_rules (r # rs) fs =
     (case apply_rule r fs of
        Inl e \<Rightarrow> Inl e
      | Inr fs' \<Rightarrow> apply_rules rs fs')"

text \<open>
  Modelled from the spec: \<^verbatim>\<open>DependencyPreparer.prepare\<close>
  (\<^verbatim>\<open>CoastalCalibRunner._prepare_promoted_stage_deps\<close>) is missing, and so is its table of
  rules, which is a parameter here. The rules of the given stage are applied.
\<close>

definition prepare_promoted_stage_deps ::
  "dep_rule list \<Rightarrow> string \<Rightarrow> filesystem \<Rightarrow> error + filesystem" where
  "prepare_promoted_stage_deps rules stage_name fs =
     apply_rules (filter (\<lambda>r. rule_stage r = stage_name) rules) fs"

text \<open>The stage order of the finite-element model and its containerized stages.\<close>

definition schism_stage_order :: "string list" where
  "schism_stage_order =
     [''download'', ''pre_forcing'', ''nwm_forcing'', ''post_forcing'', ''update_params'',
      ''schism_obs'', ''boundary_conditions'', ''pre_schism'', ''schism_run'',
      ''post_schism'', ''schism_plot'']"

definition schism_containerized :: "string \<Rightarrow> bool" where
  "schism_containerized s \<longleftrightarrow> s \<notin> set [''download'', ''schism_obs'', ''schism_plot'']"


text \<open>The one rule the tests show, for a working directory and a parameter directory.\<close>

definition schism_obs_rules :: "dep_rule list" where
  "schism_obs_rules =
     [\<lparr> rule_stage = ''schism_obs'', required = ''/work/hgrid.gr3'',
        source = ''/parm/parm/coastal/atlgulf/hgrid.gr3'' \<rparr>]"

definition fs_with_source :: filesystem where
  "fs_with_source = [''/parm/parm/coastal/atlgulf/hgrid.gr3'' \<mapsto> File ''test hgrid content'']"

definition fs_linked :: filesystem where
  "fs_linked =
     fs_with_source(''/work/hgrid.gr3'' \<mapsto> Link ''/parm/parm/coastal/atlgulf/hgrid.gr3'')"

definition fs_with_hgrid :: filesystem where
  "fs_with_hgrid = fs_with_source(''/work/hgrid.gr3'' \<mapsto> File ''existing hgrid'')"

section \<open>Scheduler state parsing\<close>


lemma JobState_call_Inr: "JobState_call s = Inr m \<Longrightarrow> JobState_value m = s"
  by (auto simp: JobState_call_def split: option.splits dest: find_Some_iff [THEN iffD1])









section \<open>Polling the scheduler\<close>

lemmas string_eval =
  py_strip_def py_isspace_def py_split_def py_upper_def upper_char_def py_int_def
  digit_val_def part_or_empty_def sublist_code(3)

lemmas slurm_eval =
  parse_state_def JobState_call_def JobState_members_def sacct_exit_code_def
  sacct_line_status_def sacct_status_def squeue_status_def unknown_status_def
  terminal_states_def

lemma sacct_status_completed: "sacct_status ''1001'' 0 sacct_completed = Some completed_status"
  by (simp add: sacct_completed_def completed_status_def string_eval slurm_eval)

lemma sacct_status_running: "sacct_status ''1001'' 0 sacct_running = Some running_status"
  by (simp add: sacct_running_def running_status_def string_eval slurm_eval)

lemma poll_running_scheduler:
  "get_job_status running_scheduler ''1001'' = ([Sacct ''1001'', Squeue ''1001''], Inr running_status)"
  by (simp add: get_job_status_def sacct_status_running py_strip_def)
     (simp add: running_status_def terminal_states_def)

lemma poll_race_scheduler:
  "get_job_status race_scheduler ''1001'' = ([Sacct ''1001''], Inr completed_status)"
  by (simp add: get_job_status_def sacct_status_completed)
     (simp add: completed_status_def terminal_states_def)

text \<open>
  Claim C3. When the accounting command ran and its output gives the job a status whose
  state is terminal, \<open>get_job_status\<close> returns that status after the accounting command
  alone, whatever the queue command would answer (\<open>live\<close>). The queue command is run
  exactly when the accounting command ran and gave no status or a status that is not
  terminal.
\<close>

theorem accounting_terminal_authoritative:
  "(sched (Sacct jid) = Completed rc out \<and> sacct_status jid rc out = Some st \<and>
      state st \<in> terminal_states
      \<longrightarrow> get_job_status (sched (Squeue jid := live)) jid = ([Sacct jid], Inr st)) \<and>
   (Squeue jid \<in> set (fst (get_job_status sched jid)) \<longleftrightarrow>
      (\<exists>rc out. sched (Sacct jid) = Completed rc out \<and>
         (case sacct_status jid rc out of
            None \<Rightarrow> True
          | Some st \<Rightarrow> state st \<notin> terminal_states)))"
  by (auto simp: get_job_status_def Let_def split: run_outcome.splits option.splits)

theorem accounting_terminal_authoritative_witness:
  "get_job_status (race_scheduler (Squeue ''1001'' := NotFound)) ''1001''
     = ([Sacct ''1001''], Inr completed_status) \<and>
   state completed_status = COMPLETED \<and>
   Squeue ''1001'' \<in> set (fst (get_job_status running_scheduler ''1001''))"
proof -
  have a: "race_scheduler (Sacct ''1001'') = Completed 0 sacct_completed \<and>
      sacct_status ''1001'' 0 sacct_completed = Some completed_status \<and>
      state completed_status \<in> terminal_states"
    by (simp add: sacct_status_completed) (simp add: completed_status_def terminal_states_def)
  have b: "\<exists>rc out. running_scheduler (Sacct ''1001'') = Completed rc out \<and>
         (case sacct_status ''1001'' rc out of
            None \<Rightarrow> True
          | Some st \<Rightarrow> state st \<notin> terminal_states)"
    by (simp add: sacct_status_running) (simp add: running_status_def terminal_states_def)
  from a accounting_terminal_authoritative
         [of race_scheduler "''1001''" 0 sacct_completed completed_status NotFound]
  have "get_job_status (race_scheduler (Squeue ''1001'' := NotFound)) ''1001''
     = ([Sacct ''1001''], Inr completed_status)" by blast
  moreover from b accounting_terminal_authoritative
         [of running_scheduler "''1001''" 0 sacct_completed completed_status NotFound]
  have "Squeue ''1001'' \<in> set (fst (get_job_status running_scheduler ''1001''))" by blast
  ultimately show ?thesis by (simp add: completed_status_def)
qed

text \<open>
  Claim C7, amended. The constructor fails with the "not available" error exactly when
  \<^verbatim>\<open>squeue --version\<close> cannot be started or exits with a non-zero status. In a poll, when
  both commands run, whatever their exit status and output, \<open>get_job_status\<close> returns a
  status; when the queue command fails or prints nothing, that status is the one from
  the accounting output if there is one, and otherwise the status with state Unknown.
\<close>

theorem poll_falls_back:
  "(SlurmManager_init sched = Inl (RuntimeError slurm_unavailable) \<longleftrightarrow>
      (\<forall>out. sched SqueueVersion \<noteq> Completed 0 out)) \<and>
   (SlurmManager_init sched = Inr () \<longleftrightarrow> (\<exists>out. sched SqueueVersion = Completed 0 out)) \<and>
   (sched (Sacct jid) = Completed rc out \<and> sched (Squeue jid) = Completed sq_rc sq_out \<longrightarrow>
      (\<exists>st. snd (get_job_status sched jid) = Inr st) \<and>
      (sq_rc \<noteq> 0 \<or> py_strip sq_out = [] \<longrightarrow>
         snd (get_job_status sched jid) =
           Inr (case sacct_status jid rc out of
                  Some st \<Rightarrow> st
                | None \<Rightarrow> unknown_status jid)))"
  by (auto simp: SlurmManager_init_def check_slurm_available_def get_job_status_def Let_def
           split: run_outcome.splits option.splits)

theorem poll_falls_back_witness:
  "SlurmManager_init failing_scheduler = Inr () \<and>
   snd (get_job_status failing_scheduler ''1001'') = Inr (unknown_status ''1001'') \<and>
   state (unknown_status ''1001'') = UNKNOWN \<and>
   snd (get_job_status running_scheduler ''1001'') = Inr running_status"
proof -
  have f: "failing_scheduler (Sacct ''1001'') = Completed 1 [] \<and>
           failing_scheduler (Squeue ''1001'') = Completed 1 []" by simp
  have r: "running_scheduler (Sacct ''1001'') = Completed 0 sacct_running \<and>
           running_scheduler (Squeue ''1001'') = Completed 1 []" by simp
  have i: "\<exists>out. failing_scheduler SqueueVersion = Completed 0 out" by simp
  from i poll_falls_back [of failing_scheduler "''1001''" 1 "[]" 1 "[]"]
  have "SlurmManager_init failing_scheduler = Inr ()" by blast
  moreover from f poll_falls_back [of failing_scheduler "''1001''" 1 "[]" 1 "[]"]
  have "snd (get_job_status failing_scheduler ''1001'') = Inr (unknown_status ''1001'')"
    by (simp add: sacct_status_def)
  moreover from r poll_falls_back [of running_scheduler "''1001''" 0 sacct_running 1 "[]"]
  have "snd (get_job_status running_scheduler ''1001'') = Inr running_status"
    by (simp add: sacct_status_running)
  ultimately show ?thesis by (simp add: unknown_status_def)
qed

text \<open>
  With \<^verbatim>\<open>sacct\<close> not installed the constructor succeeds (it only tries \<^verbatim>\<open>squeue\<close>), and the
  first poll raises \<^verbatim>\<open>FileNotFoundError\<close>.
\<close>

theorem poll_raises_counterexample:
  "SlurmManager_init no_sacct_scheduler = Inr () \<and>
   get_job_status no_sacct_scheduler ''1001'' = ([Sacct ''1001''], Inl FileNotFoundError)"
  by (simp add: SlurmManager_init_def check_slurm_available_def get_job_status_def)

section \<open>Waiting for a job\<close>

lemma poll_always_running:
  "snd (get_job_status (always_running k) ''1001'') = Inr running_status"
  by (simp add: always_running_def poll_running_scheduler)

lemma poll_done_at_third:
  "snd (get_job_status (done_at_third_poll k) ''1001'') =
     Inr (if k < 2 then running_status else completed_status)"
  by (simp add: done_at_third_poll_def poll_running_scheduler poll_race_scheduler)

lemma running_not_terminal: "state running_status \<notin> terminal_states"
  by (simp add: running_status_def terminal_states_def)

lemma completed_terminal: "state completed_status \<in> terminal_states"
  by (simp add: completed_status_def terminal_states_def)

lemma wait_loop_zero_timeout_runs_on:
  assumes "wait_loop world clock jid p t k = Some y"
  shows "\<not> (world = always_running \<and> jid = ''1001'' \<and> 0 \<le> p \<and> t = Some 0)"
proof (rule wait_loop.raw_induct
    [where P = "\<lambda>world clock jid p t k y.
        \<not> (world = always_running \<and> jid = ''1001'' \<and> 0 \<le> p \<and> t = Some 0)"])
  show "wait_loop world clock jid p t k = Some y" by (rule assms)
next
  fix f :: "(nat \<Rightarrow> scheduler) \<Rightarrow> (nat \<Rightarrow> real) \<Rightarrow> string \<Rightarrow> int \<Rightarrow> int option \<Rightarrow> nat
     \<Rightarrow> (nat \<times> (error + JobStatus)) option"
  fix world clock jid p t k y
  assume IH: "\<And>world clock jid p t k y. f world clock jid p t k = Some y \<Longrightarrow>
      \<not> (world = always_running \<and> jid = ''1001'' \<and> 0 \<le> p \<and> t = Some 0)"
  assume step: "(case snd (get_job_status (world k) jid) of
        Inl e \<Rightarrow> Some (k, Inl e)
      | Inr status \<Rightarrow>
          if state status \<in> terminal_states then Some (k, Inr status)
          else if timed_out t (clock 0) (clock (Suc k)) then Some (k, Inr status)
          else if p < 0 then Some (k, Inl (ValueError negative_sleep))
          else f world clock jid p t (Suc k)) = Some y"
  show "\<not> (world = always_running \<and> jid = ''1001'' \<and> 0 \<le> p \<and> t = Some 0)"
  proof
    assume a: "world = always_running \<and> jid = ''1001'' \<and> 0 \<le> p \<and> t = Some 0"
    with step have "f world clock jid p t (Suc k) = Some y"
      by (simp add: poll_always_running running_not_terminal timed_out_def)
    from IH [OF this] a show False by blast
  qed
qed

lemma wait_loop_steps:
  assumes "\<forall>i<n. \<exists>s. snd (get_job_status (world (k + i)) jid) = Inr s \<and>
              state s \<notin> terminal_states \<and>
              \<not> timed_out timeout (clock 0) (clock (Suc (k + i)))"
    and "snd (get_job_status (world (k + n)) jid) = Inr st"
    and "state st \<in> terminal_states \<or> timed_out timeout (clock 0) (clock (Suc (k + n)))"
    and "n = 0 \<or> 0 \<le> poll_interval"
  shows "wait_loop world clock jid poll_interval timeout k = Some (k + n, Inr st)"
  using assms
proof (induction n arbitrary: k)
  case 0
  then show ?case by (subst wait_loop.simps) auto
next
  case (Suc n)
  from Suc.prems(1) have "\<exists>s. snd (get_job_status (world (k + 0)) jid) = Inr s \<and>
      state s \<notin> terminal_states \<and> \<not> timed_out timeout (clock 0) (clock (Suc (k + 0)))"
    by blast
  then obtain s where s: "snd (get_job_status (world k) jid) = Inr s"
    "state s \<notin> terminal_states" "\<not> timed_out timeout (clock 0) (clock (Suc k))"
    by auto
  have later: "\<forall>i<n. \<exists>s. snd (get_job_status (world (Suc k + i)) jid) = Inr s \<and>
      state s \<notin> terminal_states \<and>
      \<not> timed_out timeout (clock 0) (clock (Suc (Suc k + i)))"
  proof (intro allI impI)
    fix i assume "i < n"
    then have "Suc i < Suc n" by simp
    with Suc.prems(1) have "\<exists>s. snd (get_job_status (world (k + Suc i)) jid) = Inr s \<and>
        state s \<notin> terminal_states \<and>
        \<not> timed_out timeout (clock 0) (clock (Suc (k + Suc i)))"
      by blast
    then show "\<exists>s. snd (get_job_status (world (Suc k + i)) jid) = Inr s \<and>
        state s \<notin> terminal_states \<and>
        \<not> timed_out timeout (clock 0) (clock (Suc (Suc k + i)))"
      by simp
  qed
  have "wait_loop world clock jid poll_interval timeout (Suc k) = Some (Suc k + n, Inr st)"
    using later Suc.prems(2,3,4) by (intro Suc.IH) simp_all
  moreover from Suc.prems(4) have "\<not> poll_interval < 0" by simp
  ultimately show ?case
    using s by (subst wait_loop.simps) simp
qed

text \<open>
  Claim C6, amended. Let the poll interval be non-negative and the timeout be absent or
  different from 0. If the first \<open>n\<close> polls return statuses that are not terminal, each
  before the timeout has elapsed, and poll \<open>n\<close> returns a status \<open>st\<close> that is terminal, or
  that is read when more than the timeout has elapsed since the start, then
  \<open>wait_for_job\<close> returns \<open>st\<close> after \<open>n\<close> sleeps, as a value and not as an exception.
  A timeout of 0 never fires: the condition below asks for a timeout other than 0.
\<close>

theorem wait_for_job_returns:
  assumes "\<forall>i<n. \<exists>s. snd (get_job_status (world i) jid) = Inr s \<and>
              state s \<notin> terminal_states \<and>
              \<not> (\<exists>t. timeout = Some t \<and> t \<noteq> 0 \<and> clock (Suc i) - clock 0 > real_of_int t)"
    and "snd (get_job_status (world n) jid) = Inr st"
    and "state st \<in> terminal_states \<or>
         (\<exists>t. timeout = Some t \<and> t \<noteq> 0 \<and> clock (Suc n) - clock 0 > real_of_int t)"
    and "n = 0 \<or> 0 \<le> poll_interval"
  shows "wait_for_job world clock jid poll_interval timeout = Some (n, Inr st)"
proof -
  have t: "timed_out timeout (clock 0) now \<longleftrightarrow>
      (\<exists>t. timeout = Some t \<and> t \<noteq> 0 \<and> now - clock 0 > real_of_int t)" for now
    by (cases timeout) (simp_all add: timed_out_def)
  have "wait_loop world clock jid poll_interval timeout 0 = Some (0 + n, Inr st)"
    using assms by (intro wait_loop_steps) (simp_all add: t)
  then show ?thesis by (simp add: wait_for_job_def)
qed

theorem wait_for_job_returns_witness:
  "wait_for_job done_at_third_poll ticking ''1001'' 30 (Some 3600) = Some (2, Inr completed_status) \<and>
   wait_for_job always_running ticking ''1001'' 30 (Some 45) = Some (1, Inr running_status)"
proof
  have "\<forall>i<2. \<exists>s. snd (get_job_status (done_at_third_poll i) ''1001'') = Inr s \<and>
              state s \<notin> terminal_states \<and>
              \<not> (\<exists>t. Some 3600 = Some t \<and> t \<noteq> 0 \<and> ticking (Suc i) - ticking 0 > real_of_int t)"
    by (auto simp: poll_done_at_third running_not_terminal ticking_def less_Suc_eq numeral_2_eq_2)
  moreover have "snd (get_job_status (done_at_third_poll 2) ''1001'') = Inr completed_status"
    by (simp add: poll_done_at_third)
  moreover have "state completed_status \<in> terminal_states \<or>
         (\<exists>t. Some 3600 = Some t \<and> t \<noteq> 0 \<and> ticking (Suc 2) - ticking 0 > real_of_int t)"
    by (simp add: completed_terminal)
  moreover have "(2::nat) = 0 \<or> (0::int) \<le> 30" by simp
  ultimately show "wait_for_job done_at_third_poll ticking ''1001'' 30 (Some 3600)
      = Some (2, Inr completed_status)"
    by (rule wait_for_job_returns)
next
  have "\<forall>i<1. \<exists>s. snd (get_job_status (always_running i) ''1001'') = Inr s \<and>
              state s \<notin> terminal_states \<and>
              \<not> (\<exists>t. Some 45 = Some t \<and> t \<noteq> 0 \<and> ticking (Suc i) - ticking 0 > real_of_int t)"
    by (auto simp: poll_always_running running_not_terminal ticking_def)
  moreover have "snd (get_job_status (always_running 1) ''1001'') = Inr running_status"
    by (simp add: poll_always_running)
  moreover have "state running_status \<in> terminal_states \<or>
         (\<exists>t. Some 45 = Some t \<and> t \<noteq> 0 \<and> ticking (Suc 1) - ticking 0 > real_of_int t)"
    by (simp add: ticking_def)
  moreover have "(1::nat) = 0 \<or> (0::int) \<le> 30" by simp
  ultimately show "wait_for_job always_running ticking ''1001'' 30 (Some 45)
      = Some (1, Inr running_status)"
    by (rule wait_for_job_returns)
qed

text \<open>
  With the timeout 0 and a job that keeps running, more than 0 seconds have elapsed at
  the first check and yet \<open>wait_for_job\<close> never returns; with the poll interval -1 it
  raises \<^verbatim>\<open>ValueError\<close> after the first poll of a job that would have completed.
\<close>

theorem wait_for_job_counterexample:
  "wait_for_job always_running ticking ''1001'' 30 (Some 0) = None \<and>
   ticking 1 - ticking 0 > real_of_int 0 \<and>
   wait_for_job done_at_third_poll ticking ''1001'' (- 1) None
     = Some (0, Inl (ValueError negative_sleep))"
proof (intro conjI)
  show "wait_for_job always_running ticking ''1001'' 30 (Some 0) = None"
  proof (cases "wait_for_job always_running ticking ''1001'' 30 (Some 0)")
    case None
    then show ?thesis .
  next
    case (Some y)
    then have "wait_loop always_running ticking ''1001'' 30 (Some 0) 0 = Some y"
      by (simp add: wait_for_job_def)
    from wait_loop_zero_timeout_runs_on [OF this] show ?thesis by simp
  qed
  show "ticking 1 - ticking 0 > real_of_int 0"
    by (simp add: ticking_def)
  show "wait_for_job done_at_third_poll ticking ''1001'' (- 1) None
     = Some (0, Inl (ValueError negative_sleep))"
    unfolding wait_for_job_def
    by (subst wait_loop.simps)
       (simp add: poll_done_at_third running_not_terminal timed_out_def)
qed

section \<open>Failing external processes\<close>






section \<open>Partitioning the stages for submission\<close>

lemma span_tail: "span_part stages c @ tail_part stages c = stages"
proof -
  have "rev (takeWhile (\<lambda>s. \<not> c s) (rev stages) @ dropWhile (\<lambda>s. \<not> c s) (rev stages)) = stages"
    by (simp only: takeWhile_dropWhile_id rev_rev_ident)
  then show ?thesis by (simp only: span_part_def tail_part_def rev_append)
qed

lemma tail_host: "s \<in> set (tail_part stages c) \<Longrightarrow> \<not> c s"
  by (auto simp: tail_part_def dest: set_takeWhileD)

lemma split_span:
  assumes "filter c stages \<noteq> []"
  shows "split_stages_for_submit stages c =
    (filter (\<lambda>s. \<not> c s) (span_part stages c), filter c (span_part stages c),
     tail_part stages c)"
proof -
  define host where "host = (\<lambda>s. \<not> c s)"
  define before where "before = takeWhile host stages"
  define from_first where "from_first = dropWhile host stages"
  from assms obtain x where x: "x \<in> set stages" "c x"
    by (auto simp: filter_empty_conv)
  then have ne: "from_first \<noteq> []"
    by (auto simp: from_first_def host_def)
  then have "\<not> host (hd from_first)"
    unfolding from_first_def by (rule hd_dropWhile)
  with ne have y: "hd from_first \<in> set (rev from_first)" "\<not> host (hd from_first)"
    by simp_all
  have stages: "rev stages = rev from_first @ rev before"
    unfolding before_def from_first_def
    by (simp only: rev_append [symmetric] takeWhile_dropWhile_id)
  have d: "dropWhile host (rev stages) = dropWhile host (rev from_first) @ rev before"
    unfolding stages using y by (rule dropWhile_append1)
  have t: "takeWhile host (rev stages) = takeWhile host (rev from_first)"
    unfolding stages using y by (rule takeWhile_append1)
  have sp: "span_part stages c = before @ rev (dropWhile host (rev from_first))"
    using d by (simp add: span_part_def host_def)
  have tl: "tail_part stages c = rev (takeWhile host (rev from_first))"
    using t by (simp add: tail_part_def host_def)
  have b1: "filter host before = before"
    by (auto simp: filter_id_conv before_def dest: set_takeWhileD)
  have b2: "filter c before = []"
    by (auto simp: filter_empty_conv before_def host_def dest: set_takeWhileD)
  have "split_stages_for_submit stages c =
      (before @ filter host (rev (dropWhile host (rev from_first))),
       filter c (rev (dropWhile host (rev from_first))),
       rev (takeWhile host (rev from_first)))"
    using assms
    by (simp add: split_stages_for_submit_def Let_def host_def before_def from_first_def)
  also have "\<dots> = (filter host (span_part stages c), filter c (span_part stages c),
      tail_part stages c)"
    by (simp add: sp tl b1 b2)
  finally show ?thesis by (simp add: host_def)
qed

lemma split_cases:
  assumes "split_stages_for_submit stages c = (pre_job, job, post_job)"
  shows "(filter c stages = [] \<and> pre_job = stages \<and> job = [] \<and> post_job = []) \<or>
     (filter c stages \<noteq> [] \<and> pre_job = filter (\<lambda>s. \<not> c s) (span_part stages c) \<and>
      job = filter c (span_part stages c) \<and> post_job = tail_part stages c)"
proof (cases "filter c stages = []")
  case True
  with assms show ?thesis by (simp add: split_stages_for_submit_def)
next
  case False
  with assms split_span [OF False] show ?thesis by simp
qed

lemma job_is_filter:
  assumes "split_stages_for_submit stages c = (pre_job, job, post_job)"
  shows "job = filter c stages"
proof -
  have "filter c stages = filter c (span_part stages c) @ filter c (tail_part stages c)"
    by (simp only: filter_append [symmetric] span_tail)
  moreover have "filter c (tail_part stages c) = []"
    by (auto simp: filter_empty_conv dest: tail_host)
  ultimately show ?thesis using split_cases [OF assms] by auto
qed





lemma split_schism:
  "split_stages_for_submit schism_stage_order schism_containerized =
     ([''download'', ''schism_obs''],
      [''pre_forcing'', ''nwm_forcing'', ''post_forcing'', ''update_params'',
       ''boundary_conditions'', ''pre_schism'', ''schism_run'', ''post_schism''],
      [''schism_plot''])"
  by code_simp




lemma in_dropWhile_behind:
  "\<not> P x \<Longrightarrow> set (x # vs) \<subseteq> set (dropWhile P (us @ x # vs))"
  by (induction us) (simp_all add: subset_iff)

lemma sandwiched_in_span:
  assumes "stages = xs @ [c1, s, c2] @ ys" "c c2"
  shows "s \<in> set (span_part stages c)"
proof -
  have "rev stages = rev ys @ c2 # s # c1 # rev xs"
    using assms(1) by simp
  moreover have "set (c2 # s # c1 # rev xs)
      \<subseteq> set (dropWhile (\<lambda>s. \<not> c s) (rev ys @ c2 # s # c1 # rev xs))"
    using assms(2) by (intro in_dropWhile_behind) simp
  ultimately have "s \<in> set (dropWhile (\<lambda>s. \<not> c s) (rev stages))"
    by (simp add: subset_iff)
  then show ?thesis by (simp add: span_part_def)
qed

text \<open>
  Claim C2. A stage that is not containerized and stands directly between two
  containerized stages is in the pre-job list and not in the job list; and when no stage
  of the input is containerized, the pre-job list is the input and the two other lists
  are empty.
\<close>

theorem sandwiched_stage_promoted:
  "(stages = xs @ [c1, s, c2] @ ys \<and> is_containerized c1 \<and> \<not> is_containerized s \<and>
      is_containerized c2 \<and>
      split_stages_for_submit stages is_containerized = (pre_job, job, post_job)
      \<longrightarrow> s \<in> set pre_job \<and> s \<notin> set job) \<and>
   ((\<forall>s\<in>set stages. \<not> is_containerized s)
      \<longrightarrow> split_stages_for_submit stages is_containerized = (stages, [], []))"
proof (intro conjI impI)
  assume a: "stages = xs @ [c1, s, c2] @ ys \<and> is_containerized c1 \<and> \<not> is_containerized s \<and>
      is_containerized c2 \<and>
      split_stages_for_submit stages is_containerized = (pre_job, job, post_job)"
  then have split: "split_stages_for_submit stages is_containerized = (pre_job, job, post_job)"
    by blast
  from a have "c2 \<in> set stages" "is_containerized c2" by auto
  then have ne: "filter is_containerized stages \<noteq> []"
    by (auto simp: filter_empty_conv)
  from a have "s \<in> set (span_part stages is_containerized)"
    by (intro sandwiched_in_span [of stages xs c1 s c2 ys]) auto
  with a split_cases [OF split] ne show "s \<in> set pre_job" by auto
  from a job_is_filter [OF split] show "s \<notin> set job" by auto
next
  assume "\<forall>s\<in>set stages. \<not> is_containerized s"
  then have "filter is_containerized stages = []"
    by (auto simp: filter_empty_conv)
  then show "split_stages_for_submit stages is_containerized = (stages, [], [])"
    by (simp add: split_stages_for_submit_def)
qed

theorem sandwiched_stage_promoted_witness:
  "''schism_obs'' \<in> set [''download'', ''schism_obs''] \<and>
   ''schism_obs'' \<notin> set [''pre_forcing'', ''nwm_forcing'', ''post_forcing'', ''update_params'',
       ''boundary_conditions'', ''pre_schism'', ''schism_run'', ''post_schism''] \<and>
   split_stages_for_submit [''schism_plot''] schism_containerized = ([''schism_plot''], [], [])"
proof -
  have a: "schism_stage_order =
      [''download'', ''pre_forcing'', ''nwm_forcing'', ''post_forcing'']
        @ [''update_params'', ''schism_obs'', ''boundary_conditions'']
        @ [''pre_schism'', ''schism_run'', ''post_schism'', ''schism_plot''] \<and>
      schism_containerized ''update_params'' \<and> \<not> schism_containerized ''schism_obs'' \<and>
      schism_containerized ''boundary_conditions''"
    by (simp add: schism_stage_order_def schism_containerized_def)
  have b: "\<forall>s\<in>set [''schism_plot'']. \<not> schism_containerized s"
    by (simp add: schism_containerized_def)
  from a split_schism
    sandwiched_stage_promoted [of schism_stage_order
      "[''download'', ''pre_forcing'', ''nwm_forcing'', ''post_forcing'']"
      "''update_params''" "''schism_obs''" "''boundary_conditions''"
      "[''pre_schism'', ''schism_run'', ''post_schism'', ''schism_plot'']"
      schism_containerized "[''download'', ''schism_obs'']"
      "[''pre_forcing'', ''nwm_forcing'', ''post_forcing'', ''update_params'',
       ''boundary_conditions'', ''pre_schism'', ''schism_run'', ''post_schism'']"
      "[''schism_plot'']"]
  have "''schism_obs'' \<in> set [''download'', ''schism_obs''] \<and>
   ''schism_obs'' \<notin> set [''pre_forcing'', ''nwm_forcing'', ''post_forcing'', ''update_params'',
       ''boundary_conditions'', ''pre_schism'', ''schism_run'', ''post_schism'']"
    by blast
  moreover from b sandwiched_stage_promoted [of "[''schism_plot'']" _ _ _ _ _ schism_containerized]
  have "split_stages_for_submit [''schism_plot''] schism_containerized = ([''schism_plot''], [], [])"
    by blast
  ultimately show ?thesis by blast
qed

section \<open>Planning the stages to run\<close>










text \<open>
  Claim C5. Of a returned list: with the download feature disabled and "download"
  neither \<open>start_from\<close> nor \<open>stop_after\<close>, "download" is not in it, whatever the bounds;
  with the feature enabled, or with "download" as one of the bounds, it is the whole
  window between the bounds, so "download" is in it exactly when the bounds include it;
  with the feature enabled and no bounds it is the whole stage order.
\<close>

theorem download_stage_rule:
  assumes "get_stages_to_run stage_order start_from stop_after enabled = Inr stages"
  shows "(\<not> enabled \<and> start_from \<noteq> Some ''download'' \<and> stop_after \<noteq> Some ''download''
            \<longrightarrow> ''download'' \<notin> set stages) \<and>
         (enabled \<or> start_from = Some ''download'' \<or> stop_after = Some ''download''
            \<longrightarrow> stages = stages_between stage_order start_from stop_after) \<and>
         (enabled \<and> start_from = None \<and> stop_after = None \<longrightarrow> stages = stage_order)"
proof -
  have n: "stages_between stage_order None None = stage_order"
    by (simp add: stages_between_def)
  from assms show ?thesis
    by (auto simp: get_stages_to_run_def Let_def n split: if_splits)
qed


lemma plan_schism_all:
  "get_stages_to_run schism_stage_order None None False
     = Inr [''pre_forcing'', ''nwm_forcing'', ''post_forcing'', ''update_params'',
            ''schism_obs'', ''boundary_conditions'', ''pre_schism'', ''schism_run'',
            ''post_schism'', ''schism_plot'']"
  by code_simp

lemma plan_schism_enabled:
  "get_stages_to_run schism_stage_order None None True = Inr schism_stage_order"
  by code_simp



theorem download_stage_rule_witness:
  "''download'' \<notin> set [''pre_forcing'', ''nwm_forcing'', ''post_forcing'', ''update_params'',
            ''schism_obs'', ''boundary_conditions'', ''pre_schism'', ''schism_run'',
            ''post_schism'', ''schism_plot''] \<and>
   schism_stage_order = stages_between schism_stage_order None None \<and>
   ''download'' \<in> set schism_stage_order"
proof -
  from download_stage_rule [OF plan_schism_all]
  have "''download'' \<notin> set [''pre_forcing'', ''nwm_forcing'', ''post_forcing'', ''update_params'',
            ''schism_obs'', ''boundary_conditions'', ''pre_schism'', ''schism_run'',
            ''post_schism'', ''schism_plot'']" by blast
  moreover from download_stage_rule [OF plan_schism_enabled]
  have "schism_stage_order = stages_between schism_stage_order None None" by blast
  moreover have "''download'' \<in> set schism_stage_order"
    by (simp add: schism_stage_order_def)
  ultimately show ?thesis by blast
qed

section \<open>Preparing the dependencies of a promoted stage\<close>

lemma apply_rule_cases:
  "apply_rule r fs = Inr fs \<or>
   (fs (required r) = None \<and> fs (source r) \<noteq> None \<and>
    apply_rule r fs = Inr (fs(required r \<mapsto> Link (source r))))"
  by (simp add: apply_rule_def symlink_to_def)

lemma apply_rule_total: "\<exists>fs'. apply_rule r fs = Inr fs'"
  using apply_rule_cases [of r fs] by blast

lemma apply_rule_keeps:
  assumes "apply_rule r fs = Inr fs'" "fs p = Some n"
  shows "fs' p = Some n"
  using assms apply_rule_cases [of r fs] by (auto split: if_splits)

lemma apply_rules_total: "\<exists>fs'. apply_rules rs fs = Inr fs'"
proof (induction rs arbitrary: fs)
  case Nil
  show ?case by simp
next
  case (Cons r rs)
  obtain fs1 where "apply_rule r fs = Inr fs1"
    using apply_rule_total by blast
  with Cons.IH [of fs1] show ?case by simp
qed

lemma apply_rules_keeps:
  "apply_rules rs fs = Inr fs' \<Longrightarrow> fs p = Some n \<Longrightarrow> fs' p = Some n"
proof (induction rs arbitrary: fs)
  case Nil
  then show ?case by simp
next
  case (Cons r rs)
  obtain fs1 where 1: "apply_rule r fs = Inr fs1"
    using apply_rule_total by blast
  with Cons.prems(1) have "apply_rules rs fs1 = Inr fs'" by simp
  moreover from 1 Cons.prems(2) have "fs1 p = Some n" by (rule apply_rule_keeps)
  ultimately show ?case by (rule Cons.IH)
qed

lemma apply_rules_settled:
  "\<forall>r\<in>set rs. fs (required r) \<noteq> None \<or> fs (source r) = None \<Longrightarrow> apply_rules rs fs = Inr fs"
  by (induction rs) (auto simp: apply_rule_def)

lemma apply_rule_source:
  assumes "apply_rule r fs = Inr fs'" "p \<noteq> required r"
  shows "fs' p = fs p"
  using assms apply_rule_cases [of r fs] by auto

lemma apply_rules_source:
  "apply_rules rs fs = Inr fs' \<Longrightarrow> \<forall>r\<in>set rs. p \<noteq> required r \<Longrightarrow> fs' p = fs p"
proof (induction rs arbitrary: fs)
  case Nil
  then show ?case by simp
next
  case (Cons r rs)
  obtain fs1 where 1: "apply_rule r fs = Inr fs1"
    using apply_rule_total by blast
  with Cons.prems(1) have 2: "apply_rules rs fs1 = Inr fs'" by simp
  from Cons.prems(2) have "p \<noteq> required r" "\<forall>r\<in>set rs. p \<noteq> required r" by simp_all
  with 1 2 Cons.IH [of fs1] show ?case by (simp add: apply_rule_source)
qed

lemma apply_rules_after:
  assumes "apply_rules rs fs = Inr fs'"
    and "\<forall>r\<in>set rs. \<forall>r'\<in>set rs. source r \<noteq> required r'"
  shows "\<forall>r\<in>set rs. fs' (required r) \<noteq> None \<or> fs' (source r) = None"
  using assms
proof (induction rs arbitrary: fs)
  case Nil
  then show ?case by simp
next
  case (Cons r rs)
  obtain fs1 where 1: "apply_rule r fs = Inr fs1"
    using apply_rule_total by blast
  with Cons.prems(1) have 2: "apply_rules rs fs1 = Inr fs'" by simp
  from Cons.prems(2) have sep: "\<forall>a\<in>set rs. \<forall>b\<in>set rs. source a \<noteq> required b"
    by simp
  have rest: "\<forall>a\<in>set rs. fs' (required a) \<noteq> None \<or> fs' (source a) = None"
    using 2 sep by (rule Cons.IH)
  have first: "fs' (required r) \<noteq> None \<or> fs' (source r) = None"
  proof (cases "fs1 (required r)")
    case (Some n)
    with 2 have "fs' (required r) = Some n" by (rule apply_rules_keeps)
    then show ?thesis by simp
  next
    case None
    with 1 apply_rule_cases [of r fs] have "fs1 = fs" "fs (source r) = None"
      by (auto simp: apply_rule_def symlink_to_def split: if_splits)
    moreover from Cons.prems(2) have "\<forall>b\<in>set rs. source r \<noteq> required b" by simp
    with 2 have "fs' (source r) = fs1 (source r)" by (rule apply_rules_source)
    ultimately show ?thesis by simp
  qed
  from first rest show ?case by simp
qed

lemma apply_rules_twice:
  assumes "apply_rules rs fs = Inr fs'"
    and "\<forall>r\<in>set rs. \<forall>r'\<in>set rs. source r \<noteq> required r'"
  shows "apply_rules rs fs' = Inr fs'"
  using apply_rules_after [OF assms] by (rule apply_rules_settled)

text \<open>
  Claim C8. For every table of rules, stage name and file system, the preparer returns
  a file system and raises nothing, whether or not the sources exist. Whatever existed
  before is there unchanged afterwards: nothing is overwritten. When the required files
  of the stage exist already, or when none of its sources exists, nothing changes at
  all. When no source of the table is itself a required file of the table, as the
  canonical sources outside the working directory are, a second call changes nothing
  after the first.
\<close>

theorem prepare_idempotent:
  "(\<exists>fs'. prepare_promoted_stage_deps rules stage_name fs = Inr fs') \<and>
   (\<forall>fs' p n. prepare_promoted_stage_deps rules stage_name fs = Inr fs' \<and> fs p = Some n
      \<longrightarrow> fs' p = Some n) \<and>
   ((\<forall>r\<in>set rules. rule_stage r = stage_name \<longrightarrow> fs (required r) \<noteq> None)
      \<longrightarrow> prepare_promoted_stage_deps rules stage_name fs = Inr fs) \<and>
   ((\<forall>r\<in>set rules. rule_stage r = stage_name \<longrightarrow> fs (source r) = None)
      \<longrightarrow> prepare_promoted_stage_deps rules stage_name fs = Inr fs) \<and>
   ((\<forall>r\<in>set rules. \<forall>r'\<in>set rules. source r \<noteq> required r')
      \<longrightarrow> (\<forall>fs'. prepare_promoted_stage_deps rules stage_name fs = Inr fs'
             \<longrightarrow> prepare_promoted_stage_deps rules stage_name fs' = Inr fs'))"
proof (intro conjI allI impI)
  show "\<exists>fs'. prepare_promoted_stage_deps rules stage_name fs = Inr fs'"
    unfolding prepare_promoted_stage_deps_def by (rule apply_rules_total)
next
  fix fs' p n
  assume "prepare_promoted_stage_deps rules stage_name fs = Inr fs' \<and> fs p = Some n"
  then show "fs' p = Some n"
    unfolding prepare_promoted_stage_deps_def by (blast intro: apply_rules_keeps)
next
  assume "\<forall>r\<in>set rules. rule_stage r = stage_name \<longrightarrow> fs (required r) \<noteq> None"
  then show "prepare_promoted_stage_deps rules stage_name fs = Inr fs"
    unfolding prepare_promoted_stage_deps_def by (intro apply_rules_settled) simp
next
  assume "\<forall>r\<in>set rules. rule_stage r = stage_name \<longrightarrow> fs (source r) = None"
  then show "prepare_promoted_stage_deps rules stage_name fs = Inr fs"
    unfolding prepare_promoted_stage_deps_def by (intro apply_rules_settled) simp
next
  fix fs'
  assume sep: "\<forall>r\<in>set rules. \<forall>r'\<in>set rules. source r \<noteq> required r'"
    and once: "prepare_promoted_stage_deps rules stage_name fs = Inr fs'"
  from sep have "\<forall>r\<in>set (filter (\<lambda>r. rule_stage r = stage_name) rules).
      \<forall>r'\<in>set (filter (\<lambda>r. rule_stage r = stage_name) rules). source r \<noteq> required r'"
    by simp
  with once show "prepare_promoted_stage_deps rules stage_name fs' = Inr fs'"
    unfolding prepare_promoted_stage_deps_def by (rule apply_rules_twice)
qed

lemma prepare_links:
  "prepare_promoted_stage_deps schism_obs_rules ''schism_obs'' fs_with_source = Inr fs_linked"
  by (simp add: prepare_promoted_stage_deps_def schism_obs_rules_def apply_rule_def
        symlink_to_def fs_with_source_def fs_linked_def)

theorem prepare_idempotent_witness:
  "prepare_promoted_stage_deps schism_obs_rules ''schism_obs'' fs_with_hgrid = Inr fs_with_hgrid \<and>
   prepare_promoted_stage_deps schism_obs_rules ''schism_obs'' Map.empty = Inr Map.empty \<and>
   prepare_promoted_stage_deps schism_obs_rules ''schism_obs'' fs_linked = Inr fs_linked \<and>
   fs_linked ''/parm/parm/coastal/atlgulf/hgrid.gr3'' = Some (File ''test hgrid content'')"
proof -
  have a: "\<forall>r\<in>set schism_obs_rules. rule_stage r = ''schism_obs''
      \<longrightarrow> fs_with_hgrid (required r) \<noteq> None"
    by (simp add: schism_obs_rules_def fs_with_hgrid_def)
  have b: "\<forall>r\<in>set schism_obs_rules. rule_stage r = ''schism_obs''
      \<longrightarrow> Map.empty (source r) = None"
    by simp
  have c: "\<forall>r\<in>set schism_obs_rules. \<forall>r'\<in>set schism_obs_rules. source r \<noteq> required r'"
    by (simp add: schism_obs_rules_def)
  have d: "fs_with_source ''/parm/parm/coastal/atlgulf/hgrid.gr3'' = Some (File ''test hgrid content'')"
    by (simp add: fs_with_source_def)
  from a prepare_idempotent [of schism_obs_rules "''schism_obs''" fs_with_hgrid]
  have 1: "prepare_promoted_stage_deps schism_obs_rules ''schism_obs'' fs_with_hgrid
      = Inr fs_with_hgrid" by blast
  from b prepare_idempotent [of schism_obs_rules "''schism_obs''" Map.empty]
  have 2: "prepare_promoted_stage_deps schism_obs_rules ''schism_obs'' Map.empty = Inr Map.empty"
    by blast
  from c prepare_links prepare_idempotent [of schism_obs_rules "''schism_obs''" fs_with_source]
  have 3: "prepare_promoted_stage_deps schism_obs_rules ''schism_obs'' fs_linked = Inr fs_linked"
    by blast
  from d prepare_links prepare_idempotent [of schism_obs_rules "''schism_obs''" fs_with_source]
  have 4: "fs_linked ''/parm/parm/coastal/atlgulf/hgrid.gr3'' = Some (File ''test hgrid content'')"
    by blast
  from 1 2 3 4 show ?thesis by blast
qed

section \<open>The partition as a single forward scan\<close>

lemma parts_none:
  assumes "filter c xs = []"
  shows "span_part xs c = [] \<and> tail_part xs c = xs"
proof -
  from assms have "\<forall>x\<in>set (rev xs). \<not> c x"
    by (simp add: filter_empty_conv)
  then have d: "dropWhile (\<lambda>s. \<not> c s) (rev xs) = []"
    and t: "takeWhile (\<lambda>s. \<not> c s) (rev xs) = rev xs"
    by (simp_all add: takeWhile_eq_all_conv)
  show ?thesis
    by (simp only: span_part_def tail_part_def d t rev_rev_ident rev.simps simp_thms)
qed

lemma parts_last:
  assumes "filter c xs = []" "c x"
  shows "span_part (x # xs) c = [x] \<and> tail_part (x # xs) c = xs"
proof -
  from assms(1) have h: "\<And>y. y \<in> set (rev xs) \<Longrightarrow> \<not> c y"
    by (simp add: filter_empty_conv)
  have "dropWhile (\<lambda>s. \<not> c s) (rev xs @ [x]) = dropWhile (\<lambda>s. \<not> c s) [x]"
    using h by (rule dropWhile_append2)
  moreover have "takeWhile (\<lambda>s. \<not> c s) (rev xs @ [x]) = rev xs @ takeWhile (\<lambda>s. \<not> c s) [x]"
    using h by (rule takeWhile_append2)
  ultimately show ?thesis using assms(2) by (simp add: span_part_def tail_part_def)
qed

lemma parts_inner:
  assumes "filter c xs \<noteq> []"
  shows "span_part (x # xs) c = x # span_part xs c \<and> tail_part (x # xs) c = tail_part xs c"
proof -
  from assms obtain y where y: "y \<in> set (rev xs)" "\<not> \<not> c y"
    by (auto simp: filter_empty_conv)
  have "dropWhile (\<lambda>s. \<not> c s) (rev xs @ [x]) = dropWhile (\<lambda>s. \<not> c s) (rev xs) @ [x]"
    using y by (rule dropWhile_append1)
  moreover have "takeWhile (\<lambda>s. \<not> c s) (rev xs @ [x]) = takeWhile (\<lambda>s. \<not> c s) (rev xs)"
    using y by (rule takeWhile_append1)
  ultimately show ?thesis by (simp add: span_part_def tail_part_def)
qed

lemma scan_started:
  "job \<noteq> [] \<Longrightarrow>
   scan_stages c ss pre_job job pending =
     (if filter c ss = [] then (pre_job, job, pending @ ss)
      else (pre_job @ pending @ filter (\<lambda>s. \<not> c s) (span_part ss c),
            job @ filter c (span_part ss c), tail_part ss c))"
proof (induction ss arbitrary: pre_job job pending)
  case Nil
  then show ?case by simp
next
  case (Cons s ss)
  show ?case
  proof (cases "filter c ss = []")
    case True
    then show ?thesis
      using Cons.prems Cons.IH parts_last [OF True, of s] by (simp add: True)
  next
    case False
    then show ?thesis
      using Cons.prems Cons.IH parts_inner [OF False, of s] by (simp add: False)
  qed
qed

lemma scan_fresh:
  "scan_stages c ss pre_job [] [] =
     (if filter c ss = [] then (pre_job @ ss, [], [])
      else (pre_job @ filter (\<lambda>s. \<not> c s) (span_part ss c),
            filter c (span_part ss c), tail_part ss c))"
proof (induction ss arbitrary: pre_job)
  case Nil
  then show ?case by simp
next
  case (Cons s ss)
  show ?case
  proof (cases "filter c ss = []")
    case True
    then show ?thesis
      using Cons.IH parts_last [OF True, of s] scan_started [of "[s]" c ss pre_job "[]"]
      by (simp add: True)
  next
    case False
    then show ?thesis
      using Cons.IH parts_inner [OF False, of s] scan_started [of "[s]" c ss pre_job "[]"]
      by (simp add: False)
  qed
qed

text \<open>The scan from left to right computes the partition defined by the span.\<close>

lemma scan_is_split:
  "scan_stages c stages [] [] [] = split_stages_for_submit stages c"
proof (cases "filter c stages = []")
  case True
  then show ?thesis by (simp add: scan_fresh split_stages_for_submit_def)
next
  case False
  then show ?thesis by (simp add: scan_fresh split_span)
qed

end
